theory Spec2Isabelle
  imports Main "HOL-Library.Multiset"
begin

section \<open>Python values and built-ins used by generate\_paper\_html.py\<close>

text \<open>
  The values the script reads from the Scholar provider and stores in its dictionaries are
  \<^verbatim>\<open>None\<close>, integers and strings. A string is the list of the bytes of its UTF-8
  text. Floats are outside this model. The interpreter's limit on the number of digits
  that \<^verbatim>\<open>int\<close> and \<^verbatim>\<open>str\<close> convert is taken to be switched off.
\<close>

datatype pyval = PNone | PInt int | PStr string

text \<open>
  Exceptions, all of them subclasses of \<^verbatim>\<open>Exception\<close>. What \<^verbatim>\<open>except Exception\<close>
  does not catch (a keyboard interrupt, an exit request) is outside this model.
\<close>

datatype pyerr =
    KeyError string
  | ValueError string
  | TypeError
  | FileNotFoundError string
  | FileExistsError string
  | OtherError string

subsection \<open>\<^verbatim>\<open>int(x)\<close>\<close>

text \<open>
  On a string: white space around, an optional sign, then decimal digits, single
  underscores allowed between two digits. Only the ASCII digits and the ASCII white space
  are modelled; on the digits and spaces of other scripts, which Python also accepts, the
  model raises.
\<close>

definition is_space :: "char \<Rightarrow> bool" where
  "is_space c = ((of_char c :: nat) \<in> {9, 10, 11, 12, 13, 28, 29, 30, 31, 32})"

definition is_digit :: "char \<Rightarrow> bool" where
  "is_digit c = (48 \<le> (of_char c :: nat) \<and> (of_char c :: nat) \<le> 57)"

definition digit_val :: "char \<Rightarrow> nat" where
  "digit_val c = of_char c - 48"

text \<open>
  The digits after the first one: a digit, or one underscore followed by a digit.
\<close>

fun parse_digits :: "nat \<Rightarrow> string \<Rightarrow> nat option" where
  "parse_digits acc [] = Some acc"
| "parse_digits acc [c] = (if is_digit c then Some (10 * acc + digit_val c) else None)"
| "parse_digits acc (c # d # ds) =
     (if is_digit c then parse_digits (10 * acc + digit_val c) (d # ds)
      else if c = CHR ''_'' \<and> is_digit d then parse_digits (10 * acc + digit_val d) ds
      else None)"

definition strip :: "string \<Rightarrow> string" where
  "strip s = rev (dropWhile is_space (rev (dropWhile is_space s)))"

definition int_of_str :: "string \<Rightarrow> pyerr + int" where
  "int_of_str s =
     (let t = strip s;
          neg = (case t of c # _ \<Rightarrow> c = CHR ''-'' | [] \<Rightarrow> False);
          u = (case t of c # cs \<Rightarrow> if c = CHR ''-'' \<or> c = CHR ''+'' then cs else t | [] \<Rightarrow> [])
      in case u of
           [] \<Rightarrow> Inl (ValueError s)
         | d # ds \<Rightarrow>
             if is_digit d then
               (case parse_digits (digit_val d) ds of
                  None \<Rightarrow> Inl (ValueError s)
                | Some n \<Rightarrow> Inr (if neg then - int n else int n))
             else Inl (ValueError s))"

fun py_int :: "pyval \<Rightarrow> pyerr + int" where
  "py_int (PInt n) = Inr n"
| "py_int (PStr s) = int_of_str s"
| "py_int PNone = Inl TypeError"

subsection \<open>\<^verbatim>\<open>str(x)\<close>, as an f-string and \<^verbatim>\<open>str.format\<close> apply it\<close>

definition digit_char :: "nat \<Rightarrow> char" where
  "digit_char n = char_of (48 + n)"

fun str_nat :: "nat \<Rightarrow> string" where
  "str_nat n = (if n < 10 then [digit_char n] else str_nat (n div 10) @ [digit_char (n mod 10)])"

declare str_nat.simps [simp del]

definition str_int :: "int \<Rightarrow> string" where
  "str_int i = (if i < 0 then CHR ''-'' # str_nat (nat (- i)) else str_nat (nat i))"

fun py_str :: "pyval \<Rightarrow> string" where
  "py_str (PStr s) = s"
| "py_str (PInt n) = str_int n"
| "py_str PNone = ''None''"

subsection \<open>Dictionaries\<close>

definition dict_get :: "(string \<rightharpoonup> pyval) \<Rightarrow> string \<Rightarrow> pyval \<Rightarrow> pyval" where
  "dict_get d k dflt = (case d k of None \<Rightarrow> dflt | Some v \<Rightarrow> v)"

definition getitem :: "string \<Rightarrow> 'v option \<Rightarrow> pyerr + 'v" where
  "getitem k entry = (case entry of None \<Rightarrow> Inl (KeyError k) | Some v \<Rightarrow> Inr v)"

section \<open>Data model\<close>

text \<open>
  A publication as \<^verbatim>\<open>scholarly.fill(pub)\<close> returns it: a dictionary of which the
  script reads the entries \<^verbatim>\<open>'bib'\<close> (itself a dictionary), \<^verbatim>\<open>'num_citations'\<close>
  and \<^verbatim>\<open>'author_pub_id'\<close>. Each of them may be absent.
\<close>

record pub_filled =
  bib :: "(string \<rightharpoonup> pyval) option"
  num_citations :: "pyval option"
  author_pub_id :: "pyval option"

text \<open>The dictionary \<^verbatim>\<open>pub_dict\<close> built at lines 37-46.\<close>

record pub_dict =
  title :: pyval
  authors :: pyval
  venue :: pyval
  year :: pyval
  citations :: pyval
  url :: pyval
  abstract :: pyval
  bib_id :: pyval

definition url_prefix :: string where
  "url_prefix = ''https://scholar.google.com/citations?view_op=view_citation&citation_for_view=''"

text \<open>
  The dictionary display is evaluated entry by entry, so the first failing subscript
  decides the exception: \<^verbatim>\<open>pub_filled['bib']\<close> for the title, then
  \<^verbatim>\<open>pub_filled['author_pub_id']\<close> for the url.
\<close>

definition make_pub_dict :: "pub_filled \<Rightarrow> pyerr + pub_dict" where
  "make_pub_dict pf =
     (case getitem ''bib'' (bib pf) of
        Inl e \<Rightarrow> Inl e
      | Inr b \<Rightarrow>
          (case getitem ''author_pub_id'' (author_pub_id pf) of
             Inl e \<Rightarrow> Inl e
           | Inr i \<Rightarrow>
               Inr \<lparr> title = dict_get b ''title'' (PStr ''''),
                     authors = dict_get b ''author'' (PStr ''''),
                     venue = dict_get b ''journal'' (dict_get b ''conference'' (PStr '''')),
                     year = dict_get b ''pub_year'' (PInt 0),
                     citations = (case num_citations pf of None \<Rightarrow> PInt 0 | Some c \<Rightarrow> c),
                     url = PStr (url_prefix @ py_str i),
                     abstract = dict_get b ''abstract'' (PStr ''''),
                     bib_id = i \<rparr>))"

text \<open>The \<^verbatim>\<open>stats\<close> dictionary (lines 22-26) and the returned dictionary (lines 59-63).\<close>

record stats_dict =
  stat_citations :: pyval
  h_index :: pyval
  i10_index :: pyval

record snapshot =
  stats :: stats_dict
  publications :: "pub_dict list"
  last_updated :: string

text \<open>
  The author record as \<^verbatim>\<open>scholarly.fill(author)\<close> returns it, with the four entries the
  script subscripts. The publication stubs are opaque: only the provider reads them.
\<close>

record 's author =
  citedby :: "pyval option"
  hindex :: "pyval option"
  i10index :: "pyval option"
  author_publications :: "'s list option"

section \<open>The world: standard output, files, and what the environment answers\<close>

text \<open>
  One constructor for each \<^verbatim>\<open>print\<close> statement of the source, holding the values the
  statement interpolates.
\<close>

datatype line =
    FetchingPublications
  | ProcessingPublication nat nat
  | ErrorProcessingPublication pyerr
  | ErrorFetchingAuthorData pyerr
  | SavedPublications string
  | ErrorSavingPublications pyerr
  | GeneratedHtmlPreview string
  | ErrorGeneratingHtmlPreview pyerr
  | StatsHeader
  | TotalCitations pyval
  | HIndex pyval
  | I10Index pyval
  | TotalPublicationsProcessed nat
  | LastUpdated string
  | FailedToFetch

text \<open>
  What a file holds: the text a serializer produced from a value, or the remains of a
  write that stopped after the file was opened (and so truncated). The preview page is
  kept as the strings its template interpolates, in the order of the \<^verbatim>\<open>format\<close> calls.
\<close>

datatype content =
    Truncated
  | JsonDump snapshot
  | YamlDump snapshot
  | HtmlPage "string list" "string list list" string

record world =
  stdout :: "line list"
  files :: "string \<rightharpoonup> content"
  dirs :: "string set"

text \<open>
  The environment of one run: the answers of the Scholar provider, the clock, and the
  faults of the file system. \<open>None\<close> as a fault means that the operation goes through.
\<close>

record ('a, 's) env =
  search_author_id :: "string \<Rightarrow> pyerr + 'a"
  fill_author :: "'a \<Rightarrow> pyerr + 's author"
  fill_pub :: "'s \<Rightarrow> pyerr + pub_filled"
  now :: string
  open_fault :: "string \<Rightarrow> pyerr option"
  write_fault :: "string \<Rightarrow> pyerr option"
  makedirs_fault :: "string \<Rightarrow> pyerr option"

subsection \<open>Statements that may raise\<close>

type_synonym 'r py = "world \<Rightarrow> (pyerr + 'r) \<times> world"

definition py_return :: "'r \<Rightarrow> 'r py" where
  "py_return x w = (Inr x, w)"

definition py_lift :: "pyerr + 'r \<Rightarrow> 'r py" where
  "py_lift r w = (r, w)"

definition py_bind :: "'r py \<Rightarrow> ('r \<Rightarrow> 'q py) \<Rightarrow> 'q py" where
  "py_bind m f w = (case m w of (Inl e, w') \<Rightarrow> (Inl e, w') | (Inr x, w') \<Rightarrow> f x w')"

definition py_seq :: "unit py \<Rightarrow> 'q py \<Rightarrow> 'q py" where
  "py_seq m k = py_bind m (\<lambda>_. k)"

text \<open>\<^verbatim>\<open>try: m  except Exception as e: h e\<close>\<close>

definition py_try :: "'r py \<Rightarrow> (pyerr \<Rightarrow> 'r py) \<Rightarrow> 'r py" where
  "py_try m h w = (case m w of (Inl e, w') \<Rightarrow> h e w' | (Inr x, w') \<Rightarrow> (Inr x, w'))"

definition print :: "line \<Rightarrow> unit py" where
  "print l w = (Inr (), w\<lparr>stdout := stdout w @ [l]\<rparr>)"

subsection \<open>Files\<close>

text \<open>The directory part of a relative path: everything before the last slash.\<close>

definition dirname :: "string \<Rightarrow> string" where
  "dirname p = rev (drop 1 (dropWhile (\<lambda>c. c \<noteq> CHR ''/'') (rev p)))"

text \<open>
  \<^verbatim>\<open>open(filename, 'w', encoding='utf-8')\<close>: fails when the environment says so or when
  the directory of the path does not exist; otherwise the file exists and is empty.
\<close>

definition open_w :: "('a, 's) env \<Rightarrow> string \<Rightarrow> unit py" where
  "open_w ev p w =
     (case open_fault ev p of
        Some e \<Rightarrow> (Inl e, w)
      | None \<Rightarrow>
          if dirname p \<noteq> [] \<and> dirname p \<notin> dirs w then (Inl (FileNotFoundError p), w)
          else (Inr (), w\<lparr>files := (files w)(p \<mapsto> Truncated)\<rparr>))"

text \<open>Writing the whole text into the open file.\<close>

definition write_all :: "('a, 's) env \<Rightarrow> string \<Rightarrow> content \<Rightarrow> unit py" where
  "write_all ev p c w =
     (case write_fault ev p of
        Some e \<Rightarrow> (Inl e, w)
      | None \<Rightarrow> (Inr (), w\<lparr>files := (files w)(p \<mapsto> c)\<rparr>))"

text \<open>\<^verbatim>\<open>os.makedirs(d, exist_ok=True)\<close>\<close>

definition makedirs :: "('a, 's) env \<Rightarrow> string \<Rightarrow> unit py" where
  "makedirs ev d w =
     (case makedirs_fault ev d of
        Some e \<Rightarrow> (Inl e, w)
      | None \<Rightarrow>
          if files w d \<noteq> None then (Inl (FileExistsError d), w)
          else (Inr (), w\<lparr>dirs := insert d (dirs w)\<rparr>))"

section \<open>\<^verbatim>\<open>get_author_publications\<close>\<close>

text \<open>
  The body of the inner \<^verbatim>\<open>try\<close> (lines 35-50): expand the stub, build the dictionary.
  The sleep between two requests changes nothing that the script reads.
\<close>

definition expand_pub :: "('a, 's) env \<Rightarrow> 's \<Rightarrow> pyerr + pub_dict" where
  "expand_pub ev pub =
     (case fill_pub ev pub of
        Inl e \<Rightarrow> Inl e
      | Inr pf \<Rightarrow> make_pub_dict pf)"

text \<open>
  The loop of lines 32-54 over the stubs that remain, \<open>i\<close> being the index of the next
  one and \<open>n\<close> the length of the whole list.
\<close>

fun process_publications ::
  "('a, 's) env \<Rightarrow> nat \<Rightarrow> nat \<Rightarrow> 's list \<Rightarrow> pub_dict list \<Rightarrow> (pub_dict list) py" where
  "process_publications ev i n [] pubs = py_return pubs"
| "process_publications ev i n (pub # rest) pubs =
     py_seq (print (ProcessingPublication (i + 1) n))
       (py_bind
          (py_try
             (py_bind (py_lift (expand_pub ev pub)) (\<lambda>d. py_return (pubs @ [d])))
             (\<lambda>e. py_seq (print (ErrorProcessingPublication e)) (py_return pubs)))
          (process_publications ev (i + 1) n rest))"

text \<open>
  \<^verbatim>\<open>publications.sort(key=lambda x: int(x['year']), reverse=True)\<close>. The keys are
  computed first, one call per element in list order, and the first call that raises
  ends the sort. With \<^verbatim>\<open>reverse=True\<close> the list is reversed, sorted by a stable
  ascending sort on the keys, and reversed again.
\<close>

fun sort_keys :: "pub_dict list \<Rightarrow> pyerr + int list" where
  "sort_keys [] = Inr []"
| "sort_keys (x # xs) =
     (case py_int (year x) of
        Inl e \<Rightarrow> Inl e
      | Inr k \<Rightarrow> (case sort_keys xs of Inl e \<Rightarrow> Inl e | Inr ks \<Rightarrow> Inr (k # ks)))"

definition sort_reverse :: "int list \<Rightarrow> pub_dict list \<Rightarrow> pub_dict list" where
  "sort_reverse ks xs = map snd (rev (sort_key fst (rev (zip ks xs))))"

definition sort_by_year :: "pub_dict list \<Rightarrow> pyerr + pub_dict list" where
  "sort_by_year pubs =
     (case sort_keys pubs of
        Inl e \<Rightarrow> Inl e
      | Inr ks \<Rightarrow> Inr (sort_reverse ks pubs))"

text \<open>The body of the outer \<^verbatim>\<open>try\<close> (lines 16-63).\<close>

definition fetch_snapshot :: "('a, 's) env \<Rightarrow> string \<Rightarrow> snapshot py" where
  "fetch_snapshot ev scholar_id =
     py_bind (py_lift (search_author_id ev scholar_id)) (\<lambda>found.
     py_bind (py_lift (fill_author ev found)) (\<lambda>author.
     py_bind (py_lift (getitem ''citedby'' (citedby author))) (\<lambda>c.
     py_bind (py_lift (getitem ''hindex'' (hindex author))) (\<lambda>h.
     py_bind (py_lift (getitem ''i10index'' (i10index author))) (\<lambda>i10.
     py_bind (py_lift (getitem ''publications'' (author_publications author))) (\<lambda>stubs.
     py_bind (process_publications ev 0 (length stubs) stubs []) (\<lambda>pubs.
     py_bind (py_lift (sort_by_year pubs)) (\<lambda>sorted_pubs.
     py_return \<lparr> stats = \<lparr> stat_citations = c, h_index = h, i10_index = i10 \<rparr>,
                 publications = sorted_pubs,
                 last_updated = now ev \<rparr>))))))))"

definition get_author_publications :: "('a, 's) env \<Rightarrow> string \<Rightarrow> (snapshot option) py" where
  "get_author_publications ev scholar_id =
     py_try
       (py_bind (fetch_snapshot ev scholar_id) (\<lambda>data. py_return (Some data)))
       (\<lambda>e. py_seq (print (ErrorFetchingAuthorData e)) (py_return None))"

section \<open>The three sinks\<close>

definition save_publications :: "('a, 's) env \<Rightarrow> snapshot \<Rightarrow> string \<Rightarrow> unit py" where
  "save_publications ev data filename =
     py_try
       (py_seq (open_w ev filename)
       (py_seq (write_all ev filename (JsonDump data))
               (print (SavedPublications filename))))
       (\<lambda>e. print (ErrorSavingPublications e))"





definition save_publications_for_jekyll :: "('a, 's) env \<Rightarrow> snapshot \<Rightarrow> string \<Rightarrow> unit py" where
  "save_publications_for_jekyll ev data filename =
     py_try
       (py_seq (makedirs ev ''_data'')
       (py_seq (open_w ev filename)
       (py_seq (write_all ev filename
                  (YamlDump \<lparr> stats = stats data,
                              publications = publications data,
                              last_updated = last_updated data \<rparr>))
               (print (SavedPublications filename)))))
       (\<lambda>e. print (ErrorSavingPublications e))"

section \<open>\<^verbatim>\<open>main\<close>\<close>




text \<open>The publications that the loop keeps, in fetch order.\<close>

fun expanded :: "('a, 's) env \<Rightarrow> 's list \<Rightarrow> pub_dict list" where
  "expanded ev [] = []"
| "expanded ev (pub # rest) =
     (case expand_pub ev pub of
        Inl e \<Rightarrow> expanded ev rest
      | Inr d \<Rightarrow> d # expanded ev rest)"

text \<open>The lines that the loop prints.\<close>

fun process_log :: "('a, 's) env \<Rightarrow> nat \<Rightarrow> nat \<Rightarrow> 's list \<Rightarrow> line list" where
  "process_log ev i n [] = []"
| "process_log ev i n (pub # rest) =
     ProcessingPublication (i + 1) n #
     (case expand_pub ev pub of Inl e \<Rightarrow> [ErrorProcessingPublication e] | Inr d \<Rightarrow> []) @
     process_log ev (i + 1) n rest"

section \<open>The JSON text of a snapshot\<close>

text \<open>
  The values that \<^verbatim>\<open>json.dump\<close> receives and \<^verbatim>\<open>json.load\<close> returns: \<^verbatim>\<open>None\<close>, booleans,
  integers, strings, lists, and dictionaries with string keys in insertion order. A string
  is the list of the bytes of its UTF-8 text. Floats are not modelled.
\<close>

datatype json =
    JNull
  | JBool bool
  | JInt int
  | JStr string
  | JArr "json list"
  | JObj "(string \<times> json) list"

definition val_json :: "pyval \<Rightarrow> json" where
  "val_json v = (case v of PNone \<Rightarrow> JNull | PInt i \<Rightarrow> JInt i | PStr s \<Rightarrow> JStr s)"

definition stats_json :: "stats_dict \<Rightarrow> json" where
  "stats_json s =
     JObj [(''citations'', val_json (stat_citations s)),
           (''h_index'', val_json (h_index s)),
           (''i10_index'', val_json (i10_index s))]"

definition pub_json :: "pub_dict \<Rightarrow> json" where
  "pub_json p =
     JObj [(''title'', val_json (title p)),
           (''authors'', val_json (authors p)),
           (''venue'', val_json (venue p)),
           (''year'', val_json (year p)),
           (''citations'', val_json (citations p)),
           (''url'', val_json (url p)),
           (''abstract'', val_json (abstract p)),
           (''bib_id'', val_json (bib_id p))]"

definition snapshot_json :: "snapshot \<Rightarrow> json" where
  "snapshot_json data =
     JObj [(''stats'', stats_json (stats data)),
           (''publications'', JArr (map pub_json (publications data))),
           (''last_updated'', JStr (last_updated data))]"

subsection \<open>The encoder, with \<^verbatim>\<open>ensure_ascii=False\<close> and \<^verbatim>\<open>indent=2\<close>\<close>

definition dquote :: char where
  "dquote = CHR 0x22"

definition backslash :: char where
  "backslash = CHR 0x5C"

definition hex_digit :: "nat \<Rightarrow> char" where
  "hex_digit n = (if n < 10 then char_of (48 + n) else char_of (87 + n))"

text \<open>
  Only the quote, the backslash and the control characters below 0x20 are escaped; every
  other byte, so every byte of a non-ASCII character, is written as it is.
\<close>

definition escape_char :: "char \<Rightarrow> string" where
  "escape_char c =
     (if c = dquote then [backslash, dquote]
      else if c = backslash then [backslash, backslash]
      else if c = CHR 0x0A then [backslash, CHR ''n'']
      else if c = CHR 0x0D then [backslash, CHR ''r'']
      else if c = CHR 0x09 then [backslash, CHR ''t'']
      else if c = CHR 0x08 then [backslash, CHR ''b'']
      else if c = CHR 0x0C then [backslash, CHR ''f'']
      else if (of_char c :: nat) < 32 then
        [backslash, CHR ''u'', CHR ''0'', CHR ''0'',
         hex_digit (of_char c div 16), hex_digit (of_char c mod 16)]
      else [c])"

definition encode_basestring :: "string \<Rightarrow> string" where
  "encode_basestring s = dquote # concat (map escape_char s) @ [dquote]"

definition newline_indent :: "nat \<Rightarrow> string" where
  "newline_indent level = CHR 0x0A # replicate (2 * level) CHR '' ''"

text \<open>
  \<open>iterencode_list\<close> and \<open>iterencode_dict\<close> write the items after the first one, each
  behind the item separator, at the level of the items.
\<close>

fun iterencode :: "nat \<Rightarrow> json \<Rightarrow> string"
  and iterencode_list :: "nat \<Rightarrow> json list \<Rightarrow> string"
  and iterencode_dict :: "nat \<Rightarrow> (string \<times> json) list \<Rightarrow> string" where
  "iterencode lvl JNull = ''null''"
| "iterencode lvl (JBool b) = (if b then ''true'' else ''false'')"
| "iterencode lvl (JInt i) = str_int i"
| "iterencode lvl (JStr s) = encode_basestring s"
| "iterencode lvl (JArr []) = ''[]''"
| "iterencode lvl (JArr (x # xs)) =
     ''['' @ newline_indent (lvl + 1) @ iterencode (lvl + 1) x @ iterencode_list (lvl + 1) xs @
     newline_indent lvl @ '']''"
| "iterencode lvl (JObj []) = ''{}''"
| "iterencode lvl (JObj ((k, v) # kvs)) =
     ''{'' @ newline_indent (lvl + 1) @ encode_basestring k @ '': '' @ iterencode (lvl + 1) v @
     iterencode_dict (lvl + 1) kvs @ newline_indent lvl @ ''}''"
| "iterencode_list lvl [] = []"
| "iterencode_list lvl (x # xs) =
     '','' @ newline_indent lvl @ iterencode lvl x @ iterencode_list lvl xs"
| "iterencode_dict lvl [] = []"
| "iterencode_dict lvl ((k, v) # kvs) =
     '','' @ newline_indent lvl @ encode_basestring k @ '': '' @ iterencode lvl v @
     iterencode_dict lvl kvs"

definition json_dumps :: "json \<Rightarrow> string" where
  "json_dumps v = iterencode 0 v"

text \<open>The text that \<^verbatim>\<open>json.dump(data, f, ensure_ascii=False, indent=2)\<close> writes.\<close>

definition content_text :: "content \<Rightarrow> string option" where
  "content_text c = (case c of JsonDump data \<Rightarrow> Some (json_dumps (snapshot_json data)) | _ \<Rightarrow> None)"

subsection \<open>The decoder\<close>

definition is_ws :: "char \<Rightarrow> bool" where
  "is_ws c = (c = CHR '' '' \<or> c = CHR 0x09 \<or> c = CHR 0x0A \<or> c = CHR 0x0D)"

definition skip_ws :: "string \<Rightarrow> string" where
  "skip_ws s = dropWhile is_ws s"

definition hex_val :: "char \<Rightarrow> nat option" where
  "hex_val c =
     (let n = (of_char c :: nat) in
      if 48 \<le> n \<and> n \<le> 57 then Some (n - 48)
      else if 97 \<le> n \<and> n \<le> 102 then Some (n - 87)
      else if 65 \<le> n \<and> n \<le> 70 then Some (n - 55)
      else None)"

text \<open>
  \<^verbatim>\<open>\uXXXX\<close>: four hexadecimal digits. Only the code points below 128, which are one
  byte, are modelled.
\<close>

definition decode_uXXXX :: "char \<Rightarrow> char \<Rightarrow> char \<Rightarrow> char \<Rightarrow> char option" where
  "decode_uXXXX a b c d =
     (case (hex_val a, hex_val b, hex_val c, hex_val d) of
        (Some x, Some y, Some z, Some u) \<Rightarrow>
          (let n = ((x * 16 + y) * 16 + z) * 16 + u in if n < 128 then Some (char_of n) else None)
      | _ \<Rightarrow> None)"

definition unescape :: "char \<Rightarrow> char option" where
  "unescape e =
     (if e = dquote then Some dquote
      else if e = backslash then Some backslash
      else if e = CHR ''/'' then Some CHR ''/''
      else if e = CHR ''b'' then Some (CHR 0x08)
      else if e = CHR ''f'' then Some (CHR 0x0C)
      else if e = CHR ''n'' then Some (CHR 0x0A)
      else if e = CHR ''r'' then Some (CHR 0x0D)
      else if e = CHR ''t'' then Some (CHR 0x09)
      else None)"

definition cons_fst :: "char \<Rightarrow> (string \<times> string) option \<Rightarrow> (string \<times> string) option" where
  "cons_fst c r = (case r of None \<Rightarrow> None | Some (s, rest) \<Rightarrow> Some (c # s, rest))"

text \<open>
  The text behind an opening quote, up to the closing quote, in strict mode: a control
  character inside a string is an error.
\<close>

fun scanstring :: "string \<Rightarrow> (string \<times> string) option" where
  "scanstring [] = None"
| "scanstring (c # r) =
     (if c = dquote then Some ([], r)
      else if c = backslash then
        (case r of
           [] \<Rightarrow> None
         | e # r1 \<Rightarrow>
             if e = CHR ''u'' then
               (case r1 of
                  h1 # h2 # h3 # h4 # r2 \<Rightarrow>
                    (case decode_uXXXX h1 h2 h3 h4 of
                       None \<Rightarrow> None
                     | Some ch \<Rightarrow> cons_fst ch (scanstring r2))
                | _ \<Rightarrow> None)
             else
               (case unescape e of
                  None \<Rightarrow> None
                | Some ch \<Rightarrow> cons_fst ch (scanstring r1)))
      else if (of_char c :: nat) < 32 then None
      else cons_fst c (scanstring r))"

definition digits_val :: "string \<Rightarrow> nat" where
  "digits_val ds = foldl (\<lambda>a c. 10 * a + digit_val c) 0 ds"

text \<open>
  A number: an optional minus sign, then 0 or a digit from 1 to 9 followed by digits. A
  fraction or an exponent behind it would make a float, which is not modelled.
\<close>

definition starts_fraction :: "string \<Rightarrow> bool" where
  "starts_fraction r =
     (case r of [] \<Rightarrow> False | c # _ \<Rightarrow> c = CHR ''.'' \<or> c = CHR ''e'' \<or> c = CHR ''E'')"

definition scan_number :: "string \<Rightarrow> (json \<times> string) option" where
  "scan_number s =
     (let neg = (case s of c # _ \<Rightarrow> c = CHR ''-'' | [] \<Rightarrow> False);
          s1 = (if neg then tl s else s)
      in case s1 of
           [] \<Rightarrow> None
         | d # r \<Rightarrow>
             if \<not> is_digit d then None
             else
               (let ds = (if d = CHR ''0'' then [d] else d # takeWhile is_digit r);
                    rest = (if d = CHR ''0'' then r else dropWhile is_digit r)
                in if starts_fraction rest then None
                   else Some (JInt (if neg then - int (digits_val ds) else int (digits_val ds)),
                              rest)))"

text \<open>A dictionary built from the pairs in reading order: a repeated key keeps its place
  and takes the later value.\<close>

fun dict_set :: "string \<Rightarrow> json \<Rightarrow> (string \<times> json) list \<Rightarrow> (string \<times> json) list" where
  "dict_set k v [] = [(k, v)]"
| "dict_set k v (p # ps) = (if fst p = k then (k, v) # ps else p # dict_set k v ps)"

definition dict_of_pairs :: "(string \<times> json) list \<Rightarrow> (string \<times> json) list" where
  "dict_of_pairs ps = foldl (\<lambda>d (k, v). dict_set k v d) [] ps"

text \<open>
  The recursive scanner. The first argument bounds the depth of the calls; with none left
  the scanner gives up. \<open>scan_items\<close> and \<open>scan_pairs\<close> read what follows a value inside
  a list or a dictionary: the closing bracket, or a comma and the next item.
\<close>

fun scan_once :: "nat \<Rightarrow> string \<Rightarrow> (json \<times> string) option"
  and scan_items :: "nat \<Rightarrow> string \<Rightarrow> (json list \<times> string) option"
  and scan_pair :: "nat \<Rightarrow> string \<Rightarrow> ((string \<times> json) \<times> string) option"
  and scan_pairs :: "nat \<Rightarrow> string \<Rightarrow> ((string \<times> json) list \<times> string) option" where
  "scan_once 0 s = None"
| "scan_once (Suc n) [] = None"
| "scan_once (Suc n) (c # r) =
     (if c = dquote then
        (case scanstring r of None \<Rightarrow> None | Some (str, rest) \<Rightarrow> Some (JStr str, rest))
      else if c = CHR ''{'' then
        (case skip_ws r of
           [] \<Rightarrow> None
         | c1 # r1 \<Rightarrow>
             if c1 = CHR ''}'' then Some (JObj [], r1)
             else
               (case scan_pair n (c1 # r1) of
                  None \<Rightarrow> None
                | Some (kv, r2) \<Rightarrow>
                    (case scan_pairs n r2 of
                       None \<Rightarrow> None
                     | Some (kvs, r3) \<Rightarrow> Some (JObj (dict_of_pairs (kv # kvs)), r3))))
      else if c = CHR ''['' then
        (case skip_ws r of
           [] \<Rightarrow> None
         | c1 # r1 \<Rightarrow>
             if c1 = CHR '']'' then Some (JArr [], r1)
             else
               (case scan_once n (c1 # r1) of
                  None \<Rightarrow> None
                | Some (v, r2) \<Rightarrow>
                    (case scan_items n r2 of
                       None \<Rightarrow> None
                     | Some (vs, r3) \<Rightarrow> Some (JArr (v # vs), r3))))
      else if c = CHR ''n'' then
        (if take 3 r = ''ull'' then Some (JNull, drop 3 r) else None)
      else if c = CHR ''t'' then
        (if take 3 r = ''rue'' then Some (JBool True, drop 3 r) else None)
      else if c = CHR ''f'' then
        (if take 4 r = ''alse'' then Some (JBool False, drop 4 r) else None)
      else scan_number (c # r))"
| "scan_items 0 s = None"
| "scan_items (Suc n) s =
     (case skip_ws s of
        [] \<Rightarrow> None
      | c # r \<Rightarrow>
          if c = CHR '']'' then Some ([], r)
          else if c = CHR '','' then
            (case scan_once n (skip_ws r) of
               None \<Rightarrow> None
             | Some (v, r1) \<Rightarrow>
                 (case scan_items n r1 of
                    None \<Rightarrow> None
                  | Some (vs, r2) \<Rightarrow> Some (v # vs, r2)))
          else None)"
| "scan_pair 0 s = None"
| "scan_pair (Suc n) s =
     (case s of
        [] \<Rightarrow> None
      | c # r \<Rightarrow>
          if c = dquote then
            (case scanstring r of
               None \<Rightarrow> None
             | Some (k, r1) \<Rightarrow>
                 (case skip_ws r1 of
                    [] \<Rightarrow> None
                  | c1 # r2 \<Rightarrow>
                      if c1 = CHR '':'' then
                        (case scan_once n (skip_ws r2) of
                           None \<Rightarrow> None
                         | Some (v, r3) \<Rightarrow> Some ((k, v), r3))
                      else None))
          else None)"
| "scan_pairs 0 s = None"
| "scan_pairs (Suc n) s =
     (case skip_ws s of
        [] \<Rightarrow> None
      | c # r \<Rightarrow>
          if c = CHR ''}'' then Some ([], r)
          else if c = CHR '','' then
            (case scan_pair n (skip_ws r) of
               None \<Rightarrow> None
             | Some (kv, r1) \<Rightarrow>
                 (case scan_pairs n r1 of
                    None \<Rightarrow> None
                  | Some (kvs, r2) \<Rightarrow> Some (kv # kvs, r2)))
          else None)"

text \<open>
  \<^verbatim>\<open>json.loads\<close>: white space, one value, white space, and nothing behind it. The length
  of the text is taken as the bound of the scanner.
\<close>

definition json_loads :: "string \<Rightarrow> json option" where
  "json_loads s =
     (case scan_once (length s) (skip_ws s) of
        None \<Rightarrow> None
      | Some (v, rest) \<Rightarrow> if skip_ws rest = [] then Some v else None)"

text \<open>
  Two predicates for the proofs: a dictionary has no key twice, at any depth; and the text
  behind a number does not continue it.
\<close>

definition follow_ok :: "string \<Rightarrow> bool" where
  "follow_ok r = (case r of [] \<Rightarrow> True
     | c # _ \<Rightarrow> \<not> is_digit c \<and> c \<noteq> CHR ''.'' \<and> c \<noteq> CHR ''e'' \<and> c \<noteq> CHR ''E'')"

fun wf_json :: "json \<Rightarrow> bool" where
  "wf_json (JArr xs) = (\<forall>x \<in> set xs. wf_json x)"
| "wf_json (JObj kvs) = (distinct (map fst kvs) \<and> (\<forall>kv \<in> set kvs. wf_json (snd kv)))"
| "wf_json v = True"

section \<open>Example runs\<close>

text \<open>
  A provider whose stubs carry the outcome of their own expansion, an author with three
  counters, a file system without faults, and an empty working directory.
\<close>

definition example_stub :: "pyval \<Rightarrow> string \<Rightarrow> pyerr + pub_filled" where
  "example_stub y t =
     Inr \<lparr> bib = Some [''pub_year'' \<mapsto> y, ''title'' \<mapsto> PStr t],
           num_citations = None,
           author_pub_id = Some (PStr ''id'') \<rparr>"

definition example_pub :: "pyval \<Rightarrow> string \<Rightarrow> pub_dict" where
  "example_pub y t =
     \<lparr> title = PStr t, authors = PStr '''', venue = PStr '''', year = y,
       citations = PInt 0, url = PStr (url_prefix @ ''id''), abstract = PStr '''',
       bib_id = PStr ''id'' \<rparr>"

definition example_author :: "(pyerr + pub_filled) list \<Rightarrow> (pyerr + pub_filled) author" where
  "example_author stubs =
     \<lparr> citedby = Some (PInt 10), hindex = Some (PInt 2), i10index = Some (PInt 1),
       author_publications = Some stubs \<rparr>"

definition example_env :: "(pyerr + pub_filled) list \<Rightarrow> (unit, pyerr + pub_filled) env" where
  "example_env stubs =
     \<lparr> search_author_id = (\<lambda>_. Inr ()),
       fill_author = (\<lambda>_. Inr (example_author stubs)),
       fill_pub = (\<lambda>s. s),
       now = ''2024-01-01 00:00:00'',
       open_fault = (\<lambda>_. None),
       write_fault = (\<lambda>_. None),
       makedirs_fault = (\<lambda>_. None) \<rparr>"

definition example_snapshot :: "pub_dict list \<Rightarrow> snapshot" where
  "example_snapshot pubs =
     \<lparr> stats = \<lparr> stat_citations = PInt 10, h_index = PInt 2, i10_index = PInt 1 \<rparr>,
       publications = pubs,
       last_updated = ''2024-01-01 00:00:00'' \<rparr>"

definition empty_world :: world where
  "empty_world = \<lparr> stdout = [], files = Map.empty, dirs = {} \<rparr>"

definition abc_stubs :: "(pyerr + pub_filled) list" where
  "abc_stubs =
     [example_stub (PInt 2020) ''A'', example_stub (PInt 2022) ''B'',
      example_stub (PInt 2020) ''C'']"





text \<open>A snapshot whose author name holds a two-byte character, a quote and a line feed.\<close>

definition unicode_author_snapshot :: snapshot where
  "unicode_author_snapshot =
     example_snapshot
       [(example_pub (PInt 2022) ''B'')\<lparr>authors := PStr [CHR ''J'', CHR ''o'', CHR ''s'',
           CHR 0xC3, CHR 0xA9, CHR 0x22, CHR 0x0A]\<rparr>]"

section \<open>Auxiliary facts\<close>

lemmas py_defs = py_return_def py_lift_def py_bind_def py_seq_def py_try_def print_def

lemma process_publications_eq:
  "process_publications ev i n stubs acc w =
     (Inr (acc @ expanded ev stubs), w\<lparr>stdout := stdout w @ process_log ev i n stubs\<rparr>)"
proof (induction stubs arbitrary: i acc w)
  case Nil
  then show ?case by (simp add: py_return_def)
next
  case (Cons pub rest)
  show ?case
  proof (cases "expand_pub ev pub")
    case (Inl e)
    then show ?thesis by (simp add: py_defs Cons.IH)
  next
    case (Inr d)
    then show ?thesis by (simp add: py_defs Cons.IH)
  qed
qed

lemma sort_keys_Inr_iff:
  "sort_keys xs = Inr ks \<longleftrightarrow> map (\<lambda>x. py_int (year x)) xs = map Inr ks"
proof (induction xs arbitrary: ks)
  case Nil
  then show ?case by auto
next
  case (Cons x xs)
  show ?case
  proof (cases "py_int (year x)")
    case (Inl e)
    then show ?thesis by (cases ks) auto
  next
    case (Inr k)
    show ?thesis
    proof (cases "sort_keys xs")
      case (Inl e)
      with Cons.IH have "\<And>ks. map (\<lambda>x. py_int (year x)) xs \<noteq> map Inr ks" by simp
      with Inl Inr show ?thesis by (cases ks) auto
    next
      case (Inr ks')
      with Cons.IH \<open>py_int (year x) = Inr k\<close> show ?thesis by (cases ks) auto
    qed
  qed
qed


lemma zip_keys:
  assumes "map (\<lambda>x. py_int (year x)) xs = map Inr ks"
  shows "\<forall>p \<in> set (zip ks xs). py_int (year (snd p)) = Inr (fst p)"
proof -
  have len: "length xs = length ks" using assms by (metis length_map)
  show ?thesis
  proof
    fix p assume "p \<in> set (zip ks xs)"
    then obtain i where i: "i < length ks" "i < length xs" "p = (ks ! i, xs ! i)"
      by (auto simp: set_zip)
    from assms have "map (\<lambda>x. py_int (year x)) xs ! i = map Inr ks ! i" by simp
    with i show "py_int (year (snd p)) = Inr (fst p)" by simp
  qed
qed

lemma sort_reverse_keys:
  assumes "map (\<lambda>x. py_int (year x)) xs = map Inr ks"
  shows "map (\<lambda>x. py_int (year x)) (sort_reverse ks xs) =
         map Inr (rev (map fst (sort_key fst (rev (zip ks xs)))))"
proof -
  have "\<forall>p \<in> set (rev (sort_key fst (rev (zip ks xs)))). py_int (year (snd p)) = Inr (fst p)"
    using zip_keys [OF assms] by simp
  then show ?thesis
    unfolding sort_reverse_def by (simp add: rev_map [symmetric])
qed

lemma sort_reverse_descending:
  "sorted_wrt (\<lambda>a b. b \<le> a) (rev (map fst (sort_key fst (rev zs))))"
  by (simp add: sorted_wrt_rev)

lemma sort_reverse_stable:
  assumes "map (\<lambda>x. py_int (year x)) xs = map Inr ks"
  shows "filter (\<lambda>x. py_int (year x) = Inr y) (sort_reverse ks xs) =
         filter (\<lambda>x. py_int (year x) = Inr y) xs"
proof -
  let ?P = "\<lambda>x. py_int (year x) = Inr y"
  let ?Q = "\<lambda>p::int \<times> pub_dict. fst p = y"
  have len: "length ks = length xs" using assms by (metis length_map)
  have key: "\<forall>p \<in> set (zip ks xs). ?P (snd p) = ?Q p"
    using zip_keys [OF assms] by auto
  have "filter ?P (sort_reverse ks xs) =
        map snd (filter (?P \<circ> snd) (rev (sort_key fst (rev (zip ks xs)))))"
    unfolding sort_reverse_def by (simp add: filter_map)
  also have "filter (?P \<circ> snd) (rev (sort_key fst (rev (zip ks xs)))) =
             filter ?Q (rev (sort_key fst (rev (zip ks xs))))"
    using key by (intro filter_cong) auto
  also have "\<dots> = rev (filter ?Q (sort_key fst (rev (zip ks xs))))"
    by (simp add: rev_filter)
  also have "filter ?Q (sort_key fst (rev (zip ks xs))) = filter ?Q (rev (zip ks xs))"
    by (rule sort_key_stable)
  also have "rev (filter ?Q (rev (zip ks xs))) = filter ?Q (zip ks xs)"
    by (simp add: rev_filter)
  also have "filter ?Q (zip ks xs) = filter (?P \<circ> snd) (zip ks xs)"
    using key by (intro filter_cong) auto
  also have "map snd (filter (?P \<circ> snd) (zip ks xs)) = filter ?P (map snd (zip ks xs))"
    by (simp add: filter_map)
  also have "map snd (zip ks xs) = xs" using len by simp
  finally show ?thesis .
qed


lemma get_author_publications_Some:
  assumes "fst (get_author_publications ev sid w) = Inr (Some data)"
  shows "\<exists>found au c h i10 stubs.
           search_author_id ev sid = Inr found \<and> fill_author ev found = Inr au \<and>
           citedby au = Some c \<and> hindex au = Some h \<and> i10index au = Some i10 \<and>
           author_publications au = Some stubs \<and>
           sort_by_year (expanded ev stubs) = Inr (publications data) \<and>
           stats data = \<lparr> stat_citations = c, h_index = h, i10_index = i10 \<rparr> \<and>
           last_updated data = now ev"
  using assms
  unfolding get_author_publications_def fetch_snapshot_def
  by (auto simp: py_defs getitem_def process_publications_eq split: sum.splits option.splits prod.splits)




lemma get_author_publications_sorted:
  assumes "search_author_id ev sid = Inr found" "fill_author ev found = Inr au"
    and "citedby au = Some c" "hindex au = Some h" "i10index au = Some i10"
    and "author_publications au = Some stubs"
    and "sort_by_year (expanded ev stubs) = Inr sp"
  shows "get_author_publications ev sid w =
           (Inr (Some \<lparr> stats = \<lparr> stat_citations = c, h_index = h, i10_index = i10 \<rparr>,
                         publications = sp, last_updated = now ev \<rparr>),
            w\<lparr>stdout := stdout w @ process_log ev 0 (length stubs) stubs\<rparr>)"
  using assms unfolding get_author_publications_def fetch_snapshot_def
  by (simp add: py_defs getitem_def process_publications_eq)



lemma save_publications_cases:
  "save_publications ev d f w =
    (Inr (),
     case open_fault ev f of
       Some e \<Rightarrow> w\<lparr>stdout := stdout w @ [ErrorSavingPublications e]\<rparr>
     | None \<Rightarrow>
        if dirname f \<noteq> [] \<and> dirname f \<notin> dirs w
        then w\<lparr>stdout := stdout w @ [ErrorSavingPublications (FileNotFoundError f)]\<rparr>
        else (case write_fault ev f of
                Some e \<Rightarrow> w\<lparr>files := (files w)(f \<mapsto> Truncated),
                             stdout := stdout w @ [ErrorSavingPublications e]\<rparr>
              | None \<Rightarrow> w\<lparr>files := (files w)(f \<mapsto> JsonDump d),
                           stdout := stdout w @ [SavedPublications f]\<rparr>))"
  unfolding save_publications_def open_w_def write_all_def
  by (auto simp: py_defs split: option.splits)


lemma snapshot_rebuilt:
  "\<lparr> stats = stats d, publications = publications d, last_updated = last_updated d \<rparr> =
   (d :: snapshot)"
  by (cases d) simp

lemma save_publications_for_jekyll_cases:
  "save_publications_for_jekyll ev d f w =
    (Inr (),
     case makedirs_fault ev ''_data'' of
       Some e \<Rightarrow> w\<lparr>stdout := stdout w @ [ErrorSavingPublications e]\<rparr>
     | None \<Rightarrow>
        if files w ''_data'' \<noteq> None
        then w\<lparr>stdout := stdout w @ [ErrorSavingPublications (FileExistsError ''_data'')]\<rparr>
        else (case open_fault ev f of
          Some e \<Rightarrow> w\<lparr>dirs := insert ''_data'' (dirs w),
                       stdout := stdout w @ [ErrorSavingPublications e]\<rparr>
        | None \<Rightarrow>
           if dirname f \<noteq> [] \<and> dirname f \<notin> insert ''_data'' (dirs w)
           then w\<lparr>dirs := insert ''_data'' (dirs w),
                   stdout := stdout w @ [ErrorSavingPublications (FileNotFoundError f)]\<rparr>
           else (case write_fault ev f of
                Some e \<Rightarrow> w\<lparr>dirs := insert ''_data'' (dirs w),
                             files := (files w)(f \<mapsto> Truncated),
                             stdout := stdout w @ [ErrorSavingPublications e]\<rparr>
              | None \<Rightarrow> w\<lparr>dirs := insert ''_data'' (dirs w),
                           files := (files w)(f \<mapsto> YamlDump d),
                           stdout := stdout w @ [SavedPublications f]\<rparr>)))"
  unfolding save_publications_for_jekyll_def open_w_def write_all_def makedirs_def
  by (auto simp: py_defs snapshot_rebuilt split: option.splits)


lemma dirname_paths:
  "dirname ''publications.json'' = []"
  "dirname ''publications_preview.html'' = []"
  "dirname ''_data/publications.yml'' = ''_data''"
  by (simp_all add: dirname_def)


lemma expanded_fill_author_upd [simp]: "expanded (ev\<lparr>fill_author := f\<rparr>) xs = expanded ev xs"
  by (induction xs) (auto simp: expand_pub_def split: sum.splits)







lemma save_publications_written:
  "open_fault ev f = None \<Longrightarrow> write_fault ev f = None \<Longrightarrow> dirname f = [] \<Longrightarrow>
   files (snd (save_publications ev d f w)) f = Some (JsonDump d)"
  by (simp add: save_publications_cases)











lemma expanded_abc:
  "expanded (example_env abc_stubs) abc_stubs =
     [example_pub (PInt 2020) ''A'', example_pub (PInt 2022) ''B'', example_pub (PInt 2020) ''C'']"
  by (simp add: abc_stubs_def example_env_def example_stub_def example_pub_def expand_pub_def
        make_pub_dict_def getitem_def dict_get_def)

lemma sort_abc:
  "sort_by_year [example_pub (PInt 2020) ''A'', example_pub (PInt 2022) ''B'', example_pub (PInt 2020) ''C'']
     = Inr [example_pub (PInt 2022) ''B'', example_pub (PInt 2020) ''A'', example_pub (PInt 2020) ''C'']"
  by (simp add: sort_by_year_def sort_reverse_def example_pub_def)





subsection \<open>Decoding what the encoder writes\<close>

lemma cons_fst_Some [simp]: "cons_fst c (Some (s, r)) = Some (c # s, r)"
  by (simp add: cons_fst_def)

lemma hex_val_hex_digit: "k < 16 \<Longrightarrow> hex_val (hex_digit k) = Some k"
proof -
  assume "k < 16"
  then consider "k < 10" | "10 \<le> k" "k < 16" by linarith
  then show ?thesis
  proof cases
    case 1
    then show ?thesis by (simp add: hex_val_def hex_digit_def Let_def)
  next
    case 2
    then show ?thesis by (simp add: hex_val_def hex_digit_def Let_def)
  qed
qed

lemma decode_control:
  assumes "(of_char c :: nat) < 32"
  shows "decode_uXXXX CHR ''0'' CHR ''0'' (hex_digit (of_char c div 16)) (hex_digit (of_char c mod 16))
           = Some c"
proof -
  let ?n = "of_char c :: nat"
  have z: "hex_val CHR ''0'' = Some 0" by (simp add: hex_val_def)
  have hi: "hex_val (hex_digit (?n div 16)) = Some (?n div 16)"
    using assms by (intro hex_val_hex_digit) simp
  have lo: "hex_val (hex_digit (?n mod 16)) = Some (?n mod 16)"
    by (intro hex_val_hex_digit) simp
  have "?n div 16 * 16 + ?n mod 16 = ?n" by simp
  then show ?thesis
    using assms by (simp add: decode_uXXXX_def z hi lo Let_def)
qed

lemma scanstring_escape_char:
  "scanstring (escape_char c @ r) = cons_fst c (scanstring r)"
proof -
  consider "c = dquote" | "c = backslash" | "c = CHR 0x0A" | "c = CHR 0x0D" | "c = CHR 0x09"
    | "c = CHR 0x08" | "c = CHR 0x0C"
    | "c \<noteq> dquote" "c \<noteq> backslash" "c \<noteq> CHR 0x0A" "c \<noteq> CHR 0x0D" "c \<noteq> CHR 0x09"
      "c \<noteq> CHR 0x08" "c \<noteq> CHR 0x0C" "(of_char c :: nat) < 32"
    | "c \<noteq> dquote" "c \<noteq> backslash" "\<not> (of_char c :: nat) < 32"
    by fastforce
  then show ?thesis
  proof cases
    case 8
    then show ?thesis
      by (simp add: escape_char_def dquote_def backslash_def decode_control)
  next
    case 9
    then have "escape_char c = [c]"
      by (auto simp: escape_char_def)
    with 9 show ?thesis by simp
  qed (simp_all add: escape_char_def dquote_def backslash_def unescape_def)
qed

lemma scanstring_escaped:
  "scanstring (concat (map escape_char s) @ dquote # r) = Some (s, r)"
  by (induction s) (simp_all add: scanstring_escape_char)

lemma is_digit_digit_char: "k < 10 \<Longrightarrow> is_digit (digit_char k)"
  by (simp add: is_digit_def digit_char_def)

lemma digit_val_digit_char: "k < 10 \<Longrightarrow> digit_val (digit_char k) = k"
  by (simp add: digit_val_def digit_char_def)

lemma digit_char_zero_iff: "k < 10 \<Longrightarrow> digit_char k = CHR ''0'' \<longleftrightarrow> k = 0"
proof -
  assume k: "k < 10"
  have "digit_char k = CHR ''0'' \<longleftrightarrow> (of_char (digit_char k) :: nat) = of_char CHR ''0''"
    by (metis of_char_eq_iff)
  also have "\<dots> \<longleftrightarrow> k = 0" using k by (simp add: digit_char_def)
  finally show ?thesis .
qed

lemma str_nat_digits: "\<forall>c \<in> set (str_nat n). is_digit c"
proof (induction n rule: str_nat.induct)
  case (1 n)
  show ?case
  proof (cases "n < 10")
    case True
    then show ?thesis by (subst str_nat.simps) (simp add: is_digit_digit_char)
  next
    case False
    with 1 show ?thesis by (subst str_nat.simps) (simp add: is_digit_digit_char)
  qed
qed

lemma str_nat_nonempty: "str_nat n \<noteq> []"
  by (subst str_nat.simps) simp

lemma digits_val_snoc: "digits_val (ds @ [d]) = 10 * digits_val ds + digit_val d"
  by (simp add: digits_val_def)

lemma digits_val_str_nat: "digits_val (str_nat n) = n"
proof (induction n rule: str_nat.induct)
  case (1 n)
  show ?case
  proof (cases "n < 10")
    case True
    then show ?thesis
      by (subst str_nat.simps) (simp add: digits_val_def digit_val_digit_char)
  next
    case False
    with 1 have "digits_val (str_nat (n div 10)) = n div 10" by simp
    with False show ?thesis
      by (subst str_nat.simps) (simp add: digits_val_snoc digit_val_digit_char)
  qed
qed

lemma hd_str_nat_zero: "hd (str_nat n) = CHR ''0'' \<longleftrightarrow> n = 0"
proof (induction n rule: str_nat.induct)
  case (1 n)
  show ?case
  proof (cases "n < 10")
    case True
    then show ?thesis by (subst str_nat.simps) (simp add: digit_char_zero_iff)
  next
    case False
    then have "n div 10 \<noteq> 0" by simp
    with 1 False have "hd (str_nat (n div 10)) \<noteq> CHR ''0''" by simp
    with False show ?thesis
      by (subst str_nat.simps) (simp add: hd_append str_nat_nonempty)
  qed
qed

lemma digit_char_0: "digit_char 0 = CHR ''0''"
  using digit_char_zero_iff [of 0] by simp

lemma str_nat_zero: "str_nat 0 = ''0''"
  by (subst str_nat.simps) (simp add: digit_char_0)

lemma takeWhile_digits:
  assumes "\<forall>c \<in> set ds. is_digit c" and "follow_ok r"
  shows "takeWhile is_digit (ds @ r) = ds" and "dropWhile is_digit (ds @ r) = r"
proof -
  have r: "takeWhile is_digit r = []" "dropWhile is_digit r = r"
    using assms(2) by (cases r; simp add: follow_ok_def)+
  show "takeWhile is_digit (ds @ r) = ds" using assms(1) r by (simp add: takeWhile_append2)
  show "dropWhile is_digit (ds @ r) = r" using assms(1) r by (simp add: dropWhile_append2)
qed

lemma scan_number_str_nat:
  assumes "follow_ok r"
  shows "scan_number (str_nat n @ r) = Some (JInt (int n), r)"
proof -
  obtain d ds where s: "str_nat n = d # ds"
    using str_nat_nonempty by (cases "str_nat n") auto
  have dig: "\<forall>c \<in> set (d # ds). is_digit c" using str_nat_digits [of n] s by simp
  then have d: "is_digit d" and dsd: "\<forall>c \<in> set ds. is_digit c" by simp_all
  have nm: "d \<noteq> CHR ''-''" using d by (auto simp: is_digit_def)
  have val: "digits_val (d # ds) = n" using digits_val_str_nat [of n] s by simp
  have fr: "\<not> starts_fraction r"
    using assms by (cases r) (auto simp: follow_ok_def starts_fraction_def)
  show ?thesis
  proof (cases "n = 0")
    case True
    then have "d = CHR ''0''" "ds = []" using s str_nat_zero by simp_all
    then show ?thesis
      using fr True unfolding s scan_number_def
      by (simp add: is_digit_def digits_val_def digit_val_def Let_def)
  next
    case False
    then have d0: "d \<noteq> CHR ''0''" using hd_str_nat_zero [of n] s by simp
    have tw: "takeWhile is_digit (ds @ r) = ds" "dropWhile is_digit (ds @ r) = r"
      using takeWhile_digits [OF dsd assms] by simp_all
    show ?thesis
      using fr unfolding s scan_number_def
      by (simp add: nm d d0 tw val Let_def)
  qed
qed

lemma scan_number_str_int:
  assumes "follow_ok r"
  shows "scan_number (str_int i @ r) = Some (JInt i, r)"
proof (cases "i < 0")
  case False
  then show ?thesis using scan_number_str_nat [OF assms, of "nat i"] by (simp add: str_int_def)
next
  case True
  let ?n = "nat (- i)"
  obtain d ds where s: "str_nat ?n = d # ds"
    using str_nat_nonempty by (cases "str_nat ?n") auto
  have dig: "\<forall>c \<in> set (d # ds). is_digit c" using str_nat_digits [of ?n] s by simp
  then have d: "is_digit d" and dsd: "\<forall>c \<in> set ds. is_digit c" by simp_all
  have val: "digits_val (d # ds) = ?n" using digits_val_str_nat [of ?n] s by simp
  have n0: "?n \<noteq> 0" using True by simp
  then have d0: "d \<noteq> CHR ''0''" using hd_str_nat_zero [of ?n] s by simp
  have tw: "takeWhile is_digit (ds @ r) = ds" "dropWhile is_digit (ds @ r) = r"
    using takeWhile_digits [OF dsd assms] by simp_all
  have fr: "\<not> starts_fraction r"
    using assms by (cases r) (auto simp: follow_ok_def starts_fraction_def)
  have "- int ?n = i" using True by simp
  then show ?thesis
    using True unfolding str_int_def scan_number_def
    by (simp add: s d d0 tw val fr Let_def)
qed

lemma dict_set_fresh: "k \<notin> fst ` set d \<Longrightarrow> dict_set k v d = d @ [(k, v)]"
  by (induction d) auto

lemma dict_of_pairs_distinct_aux:
  "distinct (map fst (d @ ps)) \<Longrightarrow> foldl (\<lambda>d (k, v). dict_set k v d) d ps = d @ ps"
proof (induction ps arbitrary: d)
  case Nil
  then show ?case by simp
next
  case (Cons p ps)
  obtain k v where p: "p = (k, v)" by (cases p)
  from Cons.prems have fresh: "k \<notin> fst ` set d" by (auto simp: p)
  from Cons.prems have "distinct (map fst ((d @ [(k, v)]) @ ps))" by (simp add: p)
  from Cons.IH [OF this] show ?case by (simp add: p dict_set_fresh [OF fresh])
qed

lemma dict_of_pairs_distinct: "distinct (map fst ps) \<Longrightarrow> dict_of_pairs ps = ps"
  using dict_of_pairs_distinct_aux [of "[]" ps] by (simp add: dict_of_pairs_def)

lemma skip_ws_newline_indent: "skip_ws (newline_indent l @ s) = skip_ws s"
  by (simp add: skip_ws_def newline_indent_def is_ws_def dropWhile_append)

lemma skip_ws_nonws: "\<not> is_ws c \<Longrightarrow> skip_ws (c # s) = c # s"
  by (simp add: skip_ws_def)

lemma str_int_head:
  "\<exists>c r. str_int i = c # r \<and> (is_digit c \<or> c = CHR ''-'')"
proof (cases "i < 0")
  case True
  then show ?thesis by (simp add: str_int_def)
next
  case False
  obtain d ds where s: "str_nat (nat i) = d # ds"
    using str_nat_nonempty by (cases "str_nat (nat i)") auto
  with str_nat_digits [of "nat i"] have "is_digit d" by simp
  with s False show ?thesis by (simp add: str_int_def)
qed

text \<open>The first character of an encoded value is never white space.\<close>

lemma iterencode_head:
  "\<exists>c r. iterencode lvl v = c # r \<and> \<not> is_ws c \<and> c \<noteq> CHR '']''"
proof (cases v)
  case (JInt i)
  obtain c r where "str_int i = c # r" "is_digit c \<or> c = CHR ''-''"
    using str_int_head by blast
  then show ?thesis by (auto simp: JInt is_ws_def is_digit_def)
next
  case (JArr xs)
  then show ?thesis by (cases xs) (simp_all add: is_ws_def)
next
  case (JObj kvs)
  then show ?thesis by (cases kvs) (auto simp: is_ws_def)
qed (simp_all add: is_ws_def encode_basestring_def dquote_def)

lemma skip_ws_iterencode: "skip_ws (iterencode lvl v @ s) = iterencode lvl v @ s"
proof -
  obtain c r where "iterencode lvl v = c # r" "\<not> is_ws c" using iterencode_head by blast
  then show ?thesis by (simp add: skip_ws_nonws)
qed

lemma follow_ok_list: "follow_ok (iterencode_list lvl xs @ newline_indent l @ s)"
  by (cases xs) (simp_all add: follow_ok_def newline_indent_def is_digit_def)

lemma follow_ok_dict: "follow_ok (iterencode_dict lvl kvs @ newline_indent l @ s)"
  by (cases kvs) (auto simp: follow_ok_def newline_indent_def is_digit_def)

lemma number_head:
  assumes "is_digit c \<or> c = CHR ''-''"
  shows "c \<noteq> dquote" "c \<noteq> CHR ''{''" "c \<noteq> CHR ''[''" "c \<noteq> CHR ''n''"
    "c \<noteq> CHR ''t''" "c \<noteq> CHR ''f''"
  using assms by (auto simp: is_digit_def dquote_def)

lemma scan_once_int:
  assumes "follow_ok r"
  shows "scan_once (Suc n) (str_int i @ r) = Some (JInt i, r)"
proof -
  obtain c s where cs: "str_int i = c # s" "is_digit c \<or> c = CHR ''-''"
    using str_int_head by blast
  have "scan_once (Suc n) (c # s @ r) = scan_number (c # s @ r)"
    by (simp add: number_head [OF cs(2)])
  then show ?thesis using scan_number_str_int [OF assms, of i] cs(1) by simp
qed

lemma scan_once_string:
  "scan_once (Suc n) (encode_basestring s @ r) = Some (JStr s, r)"
  by (simp add: encode_basestring_def scanstring_escaped)

lemma scan_pair_step:
  assumes "scan_once m (iterencode lvl v @ r) = Some (v, r)"
  shows "scan_pair (Suc m) (encode_basestring k @ '': '' @ iterencode lvl v @ r) =
           Some ((k, v), r)"
proof -
  have a: "skip_ws (CHR '':'' # CHR '' '' # iterencode lvl v @ r) =
           CHR '':'' # CHR '' '' # iterencode lvl v @ r"
    by (simp add: skip_ws_nonws is_ws_def)
  have b: "skip_ws (CHR '' '' # iterencode lvl v @ r) = iterencode lvl v @ r"
    using skip_ws_iterencode [of lvl v r] by (simp add: skip_ws_def is_ws_def)
  show ?thesis
    by (simp add: encode_basestring_def scanstring_escaped a b assms)
qed

lemma newline_indent_length: "length (newline_indent l) = Suc (2 * l)"
  by (simp add: newline_indent_def)

lemma skip_ws_indent_cons:
  "\<not> is_ws c \<Longrightarrow> skip_ws (newline_indent l @ c # s) = c # s"
  by (simp add: skip_ws_newline_indent skip_ws_nonws)

lemma skip_ws_indent_value:
  "skip_ws (newline_indent l @ iterencode lvl v @ s) = iterencode lvl v @ s"
  by (simp add: skip_ws_newline_indent skip_ws_iterencode)

lemma skip_ws_indent_key:
  "skip_ws (newline_indent l @ encode_basestring k @ s) = encode_basestring k @ s"
  by (simp add: skip_ws_newline_indent skip_ws_nonws encode_basestring_def is_ws_def dquote_def)

lemma dquote_distinct:
  "CHR ''{'' \<noteq> dquote" "dquote \<noteq> CHR ''}''" "\<not> is_ws dquote"
  by (simp_all add: dquote_def is_ws_def)

lemma scan_round_trip:
  "\<forall>fuel r. length (iterencode lvl v) \<le> fuel \<longrightarrow> wf_json v \<longrightarrow> follow_ok r \<longrightarrow>
      scan_once fuel (iterencode lvl v @ r) = Some (v, r)"
  "\<forall>fuel r l. length (iterencode_list lvl xs) < fuel \<longrightarrow> (\<forall>x \<in> set xs. wf_json x) \<longrightarrow>
      scan_items fuel (iterencode_list lvl xs @ newline_indent l @ CHR '']'' # r) = Some (xs, r)"
  "\<forall>fuel r l. length (iterencode_dict lvl kvs) < fuel \<longrightarrow> (\<forall>kv \<in> set kvs. wf_json (snd kv)) \<longrightarrow>
      scan_pairs fuel (iterencode_dict lvl kvs @ newline_indent l @ CHR ''}'' # r) = Some (kvs, r)"
proof (induction lvl v and lvl xs and lvl kvs
        rule: iterencode_iterencode_list_iterencode_dict.induct)
  case (1 lvl)
  show ?case
  proof (intro allI impI)
    fix fuel r assume "length (iterencode lvl JNull) \<le> fuel"
    then obtain n where "fuel = Suc n" by (cases fuel) auto
    then show "scan_once fuel (iterencode lvl JNull @ r) = Some (JNull, r)"
      by (simp add: dquote_def)
  qed
next
  case (2 lvl b)
  show ?case
  proof (intro allI impI)
    fix fuel r assume "length (iterencode lvl (JBool b)) \<le> fuel"
    then obtain n where "fuel = Suc n" by (cases fuel; cases b) auto
    then show "scan_once fuel (iterencode lvl (JBool b) @ r) = Some (JBool b, r)"
      by (cases b) (simp_all add: dquote_def)
  qed
next
  case (3 lvl i)
  show ?case
  proof (intro allI impI)
    fix fuel r assume len: "length (iterencode lvl (JInt i)) \<le> fuel" and f: "follow_ok r"
    obtain c s where "str_int i = c # s" using str_int_head by blast
    with len obtain n where "fuel = Suc n" by (cases fuel) auto
    then show "scan_once fuel (iterencode lvl (JInt i) @ r) = Some (JInt i, r)"
      using scan_once_int [OF f] by simp
  qed
next
  case (4 lvl s)
  show ?case
  proof (intro allI impI)
    fix fuel r assume "length (iterencode lvl (JStr s)) \<le> fuel"
    then obtain n where "fuel = Suc n" by (cases fuel) (auto simp: encode_basestring_def)
    then show "scan_once fuel (iterencode lvl (JStr s) @ r) = Some (JStr s, r)"
      using scan_once_string by simp
  qed
next
  case (5 lvl)
  show ?case
  proof (intro allI impI)
    fix fuel r assume "length (iterencode lvl (JArr [])) \<le> fuel"
    then obtain n where "fuel = Suc n" by (cases fuel) auto
    then show "scan_once fuel (iterencode lvl (JArr []) @ r) = Some (JArr [], r)"
      by (simp add: dquote_def skip_ws_nonws is_ws_def)
  qed
next
  case (6 lvl x xs)
  show ?case
  proof (intro allI impI)
    fix fuel r
    assume len: "length (iterencode lvl (JArr (x # xs))) \<le> fuel"
      and wf: "wf_json (JArr (x # xs))"
    let ?tail = "iterencode_list (Suc lvl) xs @ newline_indent lvl @ CHR '']'' # r"
    from len obtain n where n: "fuel = Suc n" by (cases fuel) auto
    from len n have lx: "length (iterencode (Suc lvl) x) \<le> n"
      and lxs: "length (iterencode_list (Suc lvl) xs) < n"
      by (simp_all add: newline_indent_length)
    obtain c s where cs: "iterencode (Suc lvl) x = c # s" "\<not> is_ws c" and nb: "c \<noteq> CHR '']''"
      using iterencode_head by blast
    have x: "scan_once n (iterencode (Suc lvl) x @ ?tail) = Some (x, ?tail)"
      using "6.IH"(1) lx wf follow_ok_list [of "Suc lvl" xs lvl "CHR '']'' # r"] by simp
    have xs: "scan_items n ?tail = Some (xs, r)"
      using "6.IH"(2) lxs wf by simp
    have enc: "iterencode (Suc lvl) x = c # s" using cs(1) by simp
    have sk: "skip_ws (newline_indent (Suc lvl) @ c # s @ ?tail) = c # s @ ?tail"
      using cs(2) by (rule skip_ws_indent_cons)
    have x': "scan_once n (c # s @ ?tail) = Some (x, ?tail)" using x enc by simp
    have "scan_once (Suc n) (CHR ''['' # newline_indent (Suc lvl) @ c # s @ ?tail) =
            Some (JArr (x # xs), r)"
      using x' xs nb by (simp add: sk dquote_def)
    then show "scan_once fuel (iterencode lvl (JArr (x # xs)) @ r) = Some (JArr (x # xs), r)"
      unfolding n by (simp add: enc)
  qed
next
  case (7 lvl)
  show ?case
  proof (intro allI impI)
    fix fuel r assume "length (iterencode lvl (JObj [])) \<le> fuel"
    then obtain n where "fuel = Suc n" by (cases fuel) auto
    then show "scan_once fuel (iterencode lvl (JObj []) @ r) = Some (JObj [], r)"
      by (simp add: dquote_def skip_ws_nonws is_ws_def)
  qed
next
  case (8 lvl k v kvs)
  show ?case
  proof (intro allI impI)
    fix fuel r
    assume len: "length (iterencode lvl (JObj ((k, v) # kvs))) \<le> fuel"
      and wf: "wf_json (JObj ((k, v) # kvs))"
    let ?tail = "iterencode_dict (Suc lvl) kvs @ newline_indent lvl @ CHR ''}'' # r"
    let ?pair = "encode_basestring k @ '': '' @ iterencode (Suc lvl) v @ ?tail"
    from len obtain n where n: "fuel = Suc n" by (cases fuel) auto
    from len n obtain m where m: "n = Suc m"
      by (cases n) (auto simp: newline_indent_length)
    from len n m have lv: "length (iterencode (Suc lvl) v) \<le> m"
      and lkvs: "length (iterencode_dict (Suc lvl) kvs) < n"
      by (simp_all add: newline_indent_length encode_basestring_def)
    have v: "scan_once m (iterencode (Suc lvl) v @ ?tail) = Some (v, ?tail)"
      using "8.IH"(1) lv wf follow_ok_dict [of "Suc lvl" kvs lvl "CHR ''}'' # r"] by simp
    have p: "scan_pair n ?pair = Some ((k, v), ?tail)"
      unfolding m by (rule scan_pair_step [OF v])
    have kvs: "scan_pairs n ?tail = Some (kvs, r)"
      using "8.IH"(2) lkvs wf by simp
    have d: "dict_of_pairs ((k, v) # kvs) = (k, v) # kvs"
      using wf by (intro dict_of_pairs_distinct) simp
    have sk: "skip_ws (newline_indent (Suc lvl) @ ?pair) = ?pair"
      by (rule skip_ws_indent_key)
    obtain q where q: "?pair = dquote # q" by (simp add: encode_basestring_def)
    have sk': "skip_ws (newline_indent (Suc lvl) @ dquote # q) = dquote # q"
      by (simp add: skip_ws_indent_cons dquote_distinct)
    have p': "scan_pair n (dquote # q) = Some ((k, v), ?tail)" using p q by simp
    have "scan_once (Suc n) (CHR ''{'' # newline_indent (Suc lvl) @ dquote # q) =
            Some (JObj ((k, v) # kvs), r)"
      by (simp add: sk' dquote_distinct p' kvs d)
    then have "scan_once (Suc n) (CHR ''{'' # newline_indent (Suc lvl) @ ?pair) =
            Some (JObj ((k, v) # kvs), r)"
      by (simp only: q)
    then show "scan_once fuel (iterencode lvl (JObj ((k, v) # kvs)) @ r) =
            Some (JObj ((k, v) # kvs), r)"
      unfolding n by simp
  qed
next
  case (9 lvl)
  show ?case
  proof (intro allI impI)
    fix fuel r l assume "length (iterencode_list lvl []) < fuel"
    then obtain n where "fuel = Suc n" by (cases fuel) auto
    then show "scan_items fuel (iterencode_list lvl [] @ newline_indent l @ CHR '']'' # r) =
        Some ([], r)"
      by (simp add: skip_ws_indent_cons is_ws_def)
  qed
next
  case (10 lvl x xs)
  show ?case
  proof (intro allI impI)
    fix fuel r l
    assume len: "length (iterencode_list lvl (x # xs)) < fuel"
      and wf: "\<forall>y \<in> set (x # xs). wf_json y"
    let ?tail = "iterencode_list lvl xs @ newline_indent l @ CHR '']'' # r"
    from len obtain n where n: "fuel = Suc n" by (cases fuel) auto
    from len n have lx: "length (iterencode lvl x) \<le> n"
      and lxs: "length (iterencode_list lvl xs) < n"
      by (simp_all add: newline_indent_length)
    have x: "scan_once n (iterencode lvl x @ ?tail) = Some (x, ?tail)"
      using "10.IH"(1) lx wf follow_ok_list [of lvl xs l "CHR '']'' # r"] by simp
    have xs: "scan_items n ?tail = Some (xs, r)"
      using "10.IH"(2) lxs wf by simp
    have sk: "skip_ws (newline_indent lvl @ iterencode lvl x @ ?tail) = iterencode lvl x @ ?tail"
      by (rule skip_ws_indent_value)
    show "scan_items fuel (iterencode_list lvl (x # xs) @ newline_indent l @ CHR '']'' # r) =
        Some (x # xs, r)"
      using x xs unfolding n by (simp add: skip_ws_nonws is_ws_def sk)
  qed
next
  case (11 lvl)
  show ?case
  proof (intro allI impI)
    fix fuel r l assume "length (iterencode_dict lvl []) < fuel"
    then obtain n where "fuel = Suc n" by (cases fuel) auto
    then show "scan_pairs fuel (iterencode_dict lvl [] @ newline_indent l @ CHR ''}'' # r) =
        Some ([], r)"
      by (simp add: skip_ws_indent_cons is_ws_def)
  qed
next
  case (12 lvl k v kvs)
  show ?case
  proof (intro allI impI)
    fix fuel r l
    assume len: "length (iterencode_dict lvl ((k, v) # kvs)) < fuel"
      and wf: "\<forall>kv \<in> set ((k, v) # kvs). wf_json (snd kv)"
    let ?tail = "iterencode_dict lvl kvs @ newline_indent l @ CHR ''}'' # r"
    let ?pair = "encode_basestring k @ CHR '':'' # CHR '' '' # iterencode lvl v @ ?tail"
    from len obtain n where n: "fuel = Suc n" by (cases fuel) auto
    from len n obtain m where m: "n = Suc m"
      by (cases n) (auto simp: newline_indent_length)
    from len n m have lv: "length (iterencode lvl v) \<le> m"
      and lkvs: "length (iterencode_dict lvl kvs) < n"
      by (simp_all add: newline_indent_length encode_basestring_def)
    have v: "scan_once m (iterencode lvl v @ ?tail) = Some (v, ?tail)"
      using "12.IH"(1) lv wf follow_ok_dict [of lvl kvs l "CHR ''}'' # r"] by simp
    have p: "scan_pair n ?pair = Some ((k, v), ?tail)"
      unfolding m using scan_pair_step [OF v, of k] by simp
    have kvs: "scan_pairs n ?tail = Some (kvs, r)"
      using "12.IH"(2) lkvs wf by simp
    have sk: "skip_ws (newline_indent lvl @ ?pair) = ?pair"
      using skip_ws_indent_key by simp
    show "scan_pairs fuel (iterencode_dict lvl ((k, v) # kvs) @ newline_indent l @ CHR ''}'' # r) =
        Some ((k, v) # kvs, r)"
      using p kvs unfolding n by (simp add: skip_ws_nonws is_ws_def sk)
  qed
qed

lemma json_loads_dumps:
  assumes "wf_json v"
  shows "json_loads (json_dumps v) = Some v"
proof -
  have sk: "skip_ws (iterencode 0 v) = iterencode 0 v"
    using skip_ws_iterencode [of 0 v "[]"] by simp
  have "follow_ok []" by (simp add: follow_ok_def)
  with scan_round_trip(1) [of 0 v] assms
  have "scan_once (length (iterencode 0 v)) (iterencode 0 v @ []) = Some (v, [])"
    by blast
  moreover have "skip_ws [] = []" by (simp add: skip_ws_def)
  ultimately show ?thesis
    by (simp add: json_loads_def json_dumps_def sk)
qed

lemma wf_val_json: "wf_json (val_json v)"
  by (cases v) (simp_all add: val_json_def)

lemma wf_stats_json: "wf_json (stats_json s)"
  by (simp add: stats_json_def wf_val_json)

lemma wf_pub_json: "wf_json (pub_json p)"
  by (simp add: pub_json_def wf_val_json)

lemma wf_snapshot_json: "wf_json (snapshot_json data)"
  by (simp add: snapshot_json_def wf_stats_json wf_pub_json)

lemma val_json_inj: "val_json a = val_json b \<Longrightarrow> a = b"
  by (cases a; cases b) (simp_all add: val_json_def)

lemma stats_json_inj: "stats_json a = stats_json b \<Longrightarrow> a = b"
  by (cases a; cases b) (auto simp: stats_json_def dest: val_json_inj)

lemma pub_json_inj: "pub_json a = pub_json b \<Longrightarrow> a = b"
  by (cases a; cases b) (auto simp: pub_json_def dest: val_json_inj)

lemma snapshot_json_inj: "snapshot_json a = snapshot_json b \<Longrightarrow> a = b"
proof -
  assume eq: "snapshot_json a = snapshot_json b"
  have "inj pub_json" by (rule injI) (rule pub_json_inj)
  then have m: "map pub_json (publications a) = map pub_json (publications b) \<Longrightarrow>
      publications a = publications b"
    by (simp add: inj_map_eq_map)
  from eq have "stats a = stats b" "publications a = publications b"
      "last_updated a = last_updated b"
    using m by (auto simp: snapshot_json_def dest: stats_json_inj)
  then show "a = b" by (cases a; cases b) simp
qed

section \<open>The claims\<close>

text \<open>
  Claim C1. Whenever \<^verbatim>\<open>get_author_publications\<close> returns a snapshot, the integer sort
  keys of its publication list are non-increasing, and for every year the publications of
  that year appear in the order in which the loop expanded them. For the stubs
  (2020, A), (2022, B), (2020, C) the titles come out as B, A, C.
\<close>

theorem publications_sorted_by_year_stable:
  assumes "search_author_id ev sid = Inr found"
    and "fill_author ev found = Inr au"
    and "author_publications au = Some stubs"
    and "fst (get_author_publications ev sid w) = Inr (Some data)"
  shows "(\<exists>ks. map (\<lambda>d. py_int (year d)) (publications data) = map Inr ks \<and>
               sorted_wrt (\<lambda>a b. b \<le> a) ks) \<and>
         (\<forall>y. filter (\<lambda>d. py_int (year d) = Inr y) (publications data) =
              filter (\<lambda>d. py_int (year d) = Inr y) (expanded ev stubs))"
proof -
  from get_author_publications_Some [OF assms(4)] assms(1-3)
  have "sort_by_year (expanded ev stubs) = Inr (publications data)" by auto
  then obtain ks where ks: "sort_keys (expanded ev stubs) = Inr ks"
    and out: "publications data = sort_reverse ks (expanded ev stubs)"
    by (auto simp: sort_by_year_def split: sum.splits)
  from ks have keys: "map (\<lambda>x. py_int (year x)) (expanded ev stubs) = map Inr ks"
    by (simp add: sort_keys_Inr_iff)
  have "map (\<lambda>d. py_int (year d)) (publications data) =
        map Inr (rev (map fst (sort_key fst (rev (zip ks (expanded ev stubs))))))"
    unfolding out by (rule sort_reverse_keys [OF keys])
  moreover have "sorted_wrt (\<lambda>a b. b \<le> a)
        (rev (map fst (sort_key fst (rev (zip ks (expanded ev stubs))))))"
    by (rule sort_reverse_descending)
  moreover have "\<forall>y. filter (\<lambda>d. py_int (year d) = Inr y) (publications data) =
              filter (\<lambda>d. py_int (year d) = Inr y) (expanded ev stubs)"
    unfolding out using sort_reverse_stable [OF keys] by blast
  ultimately show ?thesis by blast
qed

theorem publications_sorted_by_year_stable_witness:
  "search_author_id (example_env abc_stubs) ''B96GkdgAAAAJ'' = Inr () \<and>
   fill_author (example_env abc_stubs) () = Inr (example_author abc_stubs) \<and>
   author_publications (example_author abc_stubs) = Some abc_stubs \<and>
   fst (get_author_publications (example_env abc_stubs) ''B96GkdgAAAAJ'' empty_world) =
     Inr (Some (example_snapshot
       [example_pub (PInt 2022) ''B'', example_pub (PInt 2020) ''A'', example_pub (PInt 2020) ''C''])) \<and>
   map title [example_pub (PInt 2022) ''B'', example_pub (PInt 2020) ''A'', example_pub (PInt 2020) ''C'']
     = [PStr ''B'', PStr ''A'', PStr ''C''] \<and>
   (\<exists>ks. map (\<lambda>d. py_int (year d))
           [example_pub (PInt 2022) ''B'', example_pub (PInt 2020) ''A'', example_pub (PInt 2020) ''C'']
            = map Inr ks \<and> sorted_wrt (\<lambda>a b. b \<le> a) ks) \<and>
   (\<forall>y. filter (\<lambda>d. py_int (year d) = Inr y)
           [example_pub (PInt 2022) ''B'', example_pub (PInt 2020) ''A'', example_pub (PInt 2020) ''C''] =
        filter (\<lambda>d. py_int (year d) = Inr y) (expanded (example_env abc_stubs) abc_stubs))"
proof -
  let ?ev = "example_env abc_stubs"
  let ?out = "[example_pub (PInt 2022) ''B'', example_pub (PInt 2020) ''A'', example_pub (PInt 2020) ''C'']"
  have h1: "search_author_id ?ev ''B96GkdgAAAAJ'' = Inr ()" by (simp add: example_env_def)
  have h2: "fill_author ?ev () = Inr (example_author abc_stubs)" by (simp add: example_env_def)
  have h3: "author_publications (example_author abc_stubs) = Some abc_stubs"
    by (simp add: example_author_def)
  have srt: "sort_by_year (expanded ?ev abc_stubs) = Inr ?out"
    by (simp only: expanded_abc sort_abc)
  have "get_author_publications ?ev ''B96GkdgAAAAJ'' empty_world =
      (Inr (Some \<lparr> stats = \<lparr> stat_citations = PInt 10, h_index = PInt 2, i10_index = PInt 1 \<rparr>,
                         publications = ?out, last_updated = now ?ev \<rparr>),
            empty_world\<lparr>stdout := stdout empty_world @ process_log ?ev 0 (length abc_stubs) abc_stubs\<rparr>)"
    by (rule get_author_publications_sorted [OF h1 h2 _ _ _ h3 srt])
       (simp_all add: example_author_def)
  then have h4: "fst (get_author_publications ?ev ''B96GkdgAAAAJ'' empty_world) =
      Inr (Some (example_snapshot ?out))"
    by (simp add: example_snapshot_def example_env_def)
  have t: "map title ?out = [PStr ''B'', PStr ''A'', PStr ''C'']"
    by (simp add: example_pub_def)
  from publications_sorted_by_year_stable [OF h1 h2 h3 h4]
  show ?thesis using h1 h2 h3 h4 t by (simp add: example_snapshot_def)
qed



text \<open>
  Claim C8. In every dictionary that \<^verbatim>\<open>make_pub_dict\<close> builds, \<^verbatim>\<open>bib_id\<close> is the
  provider's \<^verbatim>\<open>author_pub_id\<close> and the url is the fixed Scholar prefix followed by
  that identifier (as \<^verbatim>\<open>str\<close> prints it; a string identifier is taken as it is).
\<close>

theorem url_from_provider_id:
  assumes "make_pub_dict pf = Inr d"
  shows "author_pub_id pf = Some (bib_id d) \<and> url d = PStr (url_prefix @ py_str (bib_id d))"
  using assms
  by (auto simp: make_pub_dict_def getitem_def split: option.splits)

theorem url_from_provider_id_witness:
  "make_pub_dict \<lparr> bib = Some Map.empty, num_citations = None,
                   author_pub_id = Some (PStr ''B96GkdgAAAAJ:u5HHmVD_uO8C'') \<rparr> =
     Inr (\<lparr> title = PStr '''', authors = PStr '''', venue = PStr '''', year = PInt 0,
       citations = PInt 0,
       url = PStr ''https://scholar.google.com/citations?view_op=view_citation&citation_for_view=B96GkdgAAAAJ:u5HHmVD_uO8C'',
       abstract = PStr '''', bib_id = PStr ''B96GkdgAAAAJ:u5HHmVD_uO8C'' \<rparr>) \<and>
   author_pub_id \<lparr> bib = Some Map.empty, num_citations = None,
                   author_pub_id = Some (PStr ''B96GkdgAAAAJ:u5HHmVD_uO8C'') \<rparr> =
     Some (bib_id \<lparr> title = PStr '''', authors = PStr '''', venue = PStr '''', year = PInt 0,
       citations = PInt 0,
       url = PStr ''https://scholar.google.com/citations?view_op=view_citation&citation_for_view=B96GkdgAAAAJ:u5HHmVD_uO8C'',
       abstract = PStr '''', bib_id = PStr ''B96GkdgAAAAJ:u5HHmVD_uO8C'' \<rparr>) \<and>
   url \<lparr> title = PStr '''', authors = PStr '''', venue = PStr '''', year = PInt 0,
       citations = PInt 0,
       url = PStr ''https://scholar.google.com/citations?view_op=view_citation&citation_for_view=B96GkdgAAAAJ:u5HHmVD_uO8C'',
       abstract = PStr '''', bib_id = PStr ''B96GkdgAAAAJ:u5HHmVD_uO8C'' \<rparr> =
     PStr (url_prefix @ ''B96GkdgAAAAJ:u5HHmVD_uO8C'')"
proof -
  let ?pf = "\<lparr> bib = Some Map.empty, num_citations = None,
                   author_pub_id = Some (PStr ''B96GkdgAAAAJ:u5HHmVD_uO8C'') \<rparr>"
  let ?d = "\<lparr> title = PStr '''', authors = PStr '''', venue = PStr '''', year = PInt 0,
       citations = PInt 0,
       url = PStr ''https://scholar.google.com/citations?view_op=view_citation&citation_for_view=B96GkdgAAAAJ:u5HHmVD_uO8C'',
       abstract = PStr '''', bib_id = PStr ''B96GkdgAAAAJ:u5HHmVD_uO8C'' \<rparr>"
  have h: "make_pub_dict ?pf = Inr ?d"
    by (simp add: make_pub_dict_def getitem_def dict_get_def url_prefix_def)
  from url_from_provider_id [OF h] h show ?thesis by simp
qed









text \<open>
  Claim C6. When the JSON sink writes its file, the text in the file, read back by the
  decoder, is the dictionary of the snapshot: the same keys in the same order, every
  integer with its exact value and every string byte for byte. No two snapshots have the same
  dictionary, so equal dictionaries mean snapshots equal field by field.
\<close>

theorem json_sink_round_trip:
  assumes "open_fault ev ''publications.json'' = None"
    and "write_fault ev ''publications.json'' = None"
  shows "(\<exists>c t. files (snd (save_publications ev data ''publications.json'' w))
                   ''publications.json'' = Some c \<and>
                content_text c = Some t \<and>
                json_loads t = Some (snapshot_json data)) \<and>
         inj snapshot_json"
proof -
  have "files (snd (save_publications ev data ''publications.json'' w)) ''publications.json'' =
          Some (JsonDump data)"
    using assms by (intro save_publications_written) (simp_all add: dirname_paths)
  moreover have "content_text (JsonDump data) = Some (json_dumps (snapshot_json data))"
    by (simp add: content_text_def)
  moreover have "json_loads (json_dumps (snapshot_json data)) = Some (snapshot_json data)"
    by (rule json_loads_dumps [OF wf_snapshot_json])
  moreover have "inj snapshot_json" by (rule injI) (rule snapshot_json_inj)
  ultimately show ?thesis by blast
qed

theorem json_sink_round_trip_witness:
  "open_fault (example_env abc_stubs) ''publications.json'' = None \<and>
   write_fault (example_env abc_stubs) ''publications.json'' = None \<and>
   (\<exists>c t. files (snd (save_publications (example_env abc_stubs) unicode_author_snapshot
                        ''publications.json'' empty_world)) ''publications.json'' = Some c \<and>
          content_text c = Some t \<and>
          json_loads t = Some (snapshot_json unicode_author_snapshot)) \<and>
   inj snapshot_json"
proof -
  have f: "open_fault (example_env abc_stubs) ''publications.json'' = None"
     "write_fault (example_env abc_stubs) ''publications.json'' = None"
    by (simp_all add: example_env_def)
  from json_sink_round_trip [OF f, of unicode_author_snapshot empty_world] f
  show ?thesis by blast
qed


text \<open>
  Claim C9. With no fault on its path, the YAML sink first creates the directory
  \<^verbatim>\<open>_data\<close> and then writes, to \<^verbatim>\<open>_data/publications.yml\<close>, the dump of a dictionary
  with the three entries \<^verbatim>\<open>stats\<close>, \<^verbatim>\<open>publications\<close> and \<^verbatim>\<open>last_updated\<close> of the
  snapshot: the same three values that the JSON sink dumps to \<^verbatim>\<open>publications.json\<close>.
  Where the directory is absent, opening the file without creating it first would fail.
\<close>

theorem jekyll_sink_same_fields:
  assumes "makedirs_fault ev ''_data'' = None"
    and "files w ''_data'' = None"
    and "open_fault ev ''_data/publications.yml'' = None"
    and "write_fault ev ''_data/publications.yml'' = None"
  shows "save_publications_for_jekyll ev d ''_data/publications.yml'' w =
           (Inr (), w\<lparr>dirs := insert ''_data'' (dirs w),
                       files := (files w)(''_data/publications.yml'' \<mapsto>
                          YamlDump \<lparr> stats = stats d, publications = publications d,
                                     last_updated = last_updated d \<rparr>),
                       stdout := stdout w @ [SavedPublications ''_data/publications.yml'']\<rparr>) \<and>
         (open_fault ev ''publications.json'' = None \<and>
          write_fault ev ''publications.json'' = None \<longrightarrow>
          save_publications ev d ''publications.json'' w =
           (Inr (), w\<lparr>files := (files w)(''publications.json'' \<mapsto>
                          JsonDump \<lparr> stats = stats d, publications = publications d,
                                     last_updated = last_updated d \<rparr>),
                       stdout := stdout w @ [SavedPublications ''publications.json'']\<rparr>)) \<and>
         (''_data'' \<notin> dirs w \<longrightarrow>
            open_w ev ''_data/publications.yml'' w =
              (Inl (FileNotFoundError ''_data/publications.yml''), w))"
  using assms
  by (simp add: save_publications_for_jekyll_cases save_publications_cases dirname_paths
        snapshot_rebuilt open_w_def)

theorem jekyll_sink_same_fields_witness:
  "makedirs_fault (example_env abc_stubs) ''_data'' = None \<and>
   files empty_world ''_data'' = None \<and>
   open_fault (example_env abc_stubs) ''_data/publications.yml'' = None \<and>
   write_fault (example_env abc_stubs) ''_data/publications.yml'' = None \<and>
   open_fault (example_env abc_stubs) ''publications.json'' = None \<and>
   write_fault (example_env abc_stubs) ''publications.json'' = None \<and>
   ''_data'' \<notin> dirs empty_world \<and>
   save_publications_for_jekyll (example_env abc_stubs) (example_snapshot [example_pub (PInt 2022) ''B''])
       ''_data/publications.yml'' empty_world =
     (Inr (), \<lparr>stdout = [SavedPublications ''_data/publications.yml''],
               files = [''_data/publications.yml'' \<mapsto>
                          YamlDump (example_snapshot [example_pub (PInt 2022) ''B''])],
               dirs = {''_data''}\<rparr>) \<and>
   save_publications (example_env abc_stubs) (example_snapshot [example_pub (PInt 2022) ''B''])
       ''publications.json'' empty_world =
     (Inr (), \<lparr>stdout = [SavedPublications ''publications.json''],
               files = [''publications.json'' \<mapsto>
                          JsonDump (example_snapshot [example_pub (PInt 2022) ''B''])],
               dirs = {}\<rparr>) \<and>
   open_w (example_env abc_stubs) ''_data/publications.yml'' empty_world =
     (Inl (FileNotFoundError ''_data/publications.yml''), empty_world)"
proof -
  have f: "makedirs_fault (example_env abc_stubs) ''_data'' = None"
   "files empty_world ''_data'' = None"
   "open_fault (example_env abc_stubs) ''_data/publications.yml'' = None"
   "write_fault (example_env abc_stubs) ''_data/publications.yml'' = None"
   "open_fault (example_env abc_stubs) ''publications.json'' = None"
   "write_fault (example_env abc_stubs) ''publications.json'' = None"
   "''_data'' \<notin> dirs empty_world"
    by (simp_all add: example_env_def empty_world_def)
  from jekyll_sink_same_fields [OF f(1-4), of "example_snapshot [example_pub (PInt 2022) ''B'']"] f
  show ?thesis by (simp add: empty_world_def example_snapshot_def)
qed

end
